theory Spec2Isabelle
  imports Main "HOL-Library.Sublist" "HOL-Library.Monad_Syntax"
begin

section \<open>Python strings\<close>

text \<open>
  A Python \<open>str\<close> is modelled as a \<open>string\<close>, each \<open>char\<close> standing for the code point
  of the same number (the code points below 256).  On this range \<open>str.strip()\<close> and the
  regular expression class \<open>\s\<close> remove or accept the same characters (CPython's
  \<open>Py_UNICODE_ISSPACE\<close>), and \<open>\d\<close> accepts the ten ASCII digits.
\<close>

definition tab :: char where
  "tab = CHR 0x09"

definition newline :: char where
  "newline = CHR 0x0A"

definition whitespace :: "char list" where
  "whitespace = [CHR 0x09, CHR 0x0A, CHR 0x0B, CHR 0x0C, CHR 0x0D,
                 CHR 0x1C, CHR 0x1D, CHR 0x1E, CHR 0x1F, CHR 0x20, CHR 0x85, CHR 0xA0]"

definition isspace :: "char \<Rightarrow> bool" where
  "isspace c = (c \<in> set whitespace)"

definition isdigit :: "char \<Rightarrow> bool" where
  "isdigit c = (c \<in> set ''0123456789'')"

text \<open>\<open>s.strip()\<close>: leading and trailing whitespace removed.\<close>

definition strip :: "string \<Rightarrow> string" where
  "strip s = rev (dropWhile isspace (rev (dropWhile isspace s)))"

text \<open>\<open>s.startswith(p)\<close>.\<close>

definition startswith :: "string \<Rightarrow> string \<Rightarrow> bool" where
  "startswith s p = prefix p s"

text \<open>
  \<open>s.split(sep)\<close> for a separator given explicitly: the string is cut at the left-most
  occurrences of \<open>sep\<close>, scanning from the left; empty fields are kept, and the empty
  string gives one empty field.  The program only passes the non-empty separators
  tab, \<open>;\<close> and comma-space (Python raises on an empty one; here an empty separator
  never matches).  \<open>split_from\<close> carries the characters of the field being read,
  last one first.
\<close>

function split_from :: "string \<Rightarrow> string \<Rightarrow> string \<Rightarrow> string list" where
  "split_from sep field [] = [rev field]"
| "split_from sep field (c # cs) =
     (if sep \<noteq> [] \<and> prefix sep (c # cs)
      then rev field # split_from sep [] (drop (length sep) (c # cs))
      else split_from sep (c # field) cs)"
  by pat_completeness auto
termination
  by (relation "measure (\<lambda>(sep, field, s). length s)") auto

definition split_on :: "string \<Rightarrow> string \<Rightarrow> string list" where
  "split_on sep s = split_from sep [] s"

section \<open>The two phenotype patterns\<close>

text \<open>
  The pieces of the regular expressions, each consuming a prefix of the remaining
  input: a literal character, \<open>\s\<close>, \<open>(\d)\<close> and \<open>(\d{n})\<close>.
\<close>

fun lit :: "char \<Rightarrow> string \<Rightarrow> string option" where
  "lit c [] = None"
| "lit c (x # xs) = (if x = c then Some xs else None)"

fun space :: "string \<Rightarrow> string option" where
  "space [] = None"
| "space (x # xs) = (if isspace x then Some xs else None)"

fun digit :: "string \<Rightarrow> (string \<times> string) option" where
  "digit [] = None"
| "digit (x # xs) = (if isdigit x then Some ([x], xs) else None)"

definition digits :: "nat \<Rightarrow> string \<Rightarrow> (string \<times> string) option" where
  "digits n r = (if n \<le> length r \<and> list_all isdigit (take n r)
                 then Some (take n r, drop n r) else None)"

text \<open>\<open>$\<close>: the end of the string, or just before a newline that ends the string.\<close>

definition eos :: "string \<Rightarrow> bool" where
  "eos r = (r = [] \<or> r = [newline])"

text \<open>
  \<open>.\<close> is any character but a newline.  \<open>(|, (.*))$\<close>, the optional inheritance list that
  ends both patterns: the result is the inner group (\<open>None\<close> when the empty
  alternative matched).
\<close>

definition dot :: "char \<Rightarrow> bool" where
  "dot c = (c \<noteq> newline)"

definition inheritance_tail :: "string \<Rightarrow> string option option" where
  "inheritance_tail r =
     (if eos r then Some None
      else case lit CHR '','' r \<bind> lit CHR '' '' of
             None \<Rightarrow> None
           | Some u \<Rightarrow> if eos (dropWhile dot u) then Some (Some (takeWhile dot u)) else None)"

text \<open>
  \<open>,\s(\d{6})\s\((\d)\)\<close> and \<open>\((\d)\)\<close>: the fixed middle of the two patterns, with
  the captured groups and the input left over.
\<close>

definition mim_and_key :: "string \<Rightarrow> (string \<times> string \<times> string) option" where
  "mim_and_key r = do {
     r1 \<leftarrow> lit CHR '','' r;
     r2 \<leftarrow> space r1;
     (mim, r3) \<leftarrow> digits 6 r2;
     r4 \<leftarrow> space r3;
     r5 \<leftarrow> lit CHR ''('' r4;
     (key, r6) \<leftarrow> digit r5;
     r7 \<leftarrow> lit CHR '')'' r6;
     Some (mim, key, r7)
   }"

definition key_only :: "string \<Rightarrow> (string \<times> string) option" where
  "key_only r = do {
     r1 \<leftarrow> lit CHR ''('' r;
     (key, r2) \<leftarrow> digit r1;
     r3 \<leftarrow> lit CHR '')'' r2;
     Some (key, r3)
   }"

text \<open>What follows the name in each pattern, up to the end of the segment.\<close>

definition after_name_A :: "string \<Rightarrow> (string \<times> string \<times> string option) option" where
  "after_name_A r = do {
     (mim, key, r') \<leftarrow> mim_and_key r;
     g \<leftarrow> inheritance_tail r';
     Some (mim, key, g)
   }"

definition after_name_B :: "string \<Rightarrow> (string \<times> string option) option" where
  "after_name_B r = do {
     (key, r') \<leftarrow> key_only r;
     g \<leftarrow> inheritance_tail r';
     Some (key, g)
   }"

text \<open>
  \<open>^(.*)\<close> followed by the rest \<open>k\<close> of a pattern: the greedy star first takes every
  character up to the first newline, and gives them back one at a time until the
  rest matches.  \<open>backtrack k s i\<close> tries the names of length \<open>i\<close>, \<open>i - 1\<close>, ..., \<open>0\<close>.
\<close>

fun backtrack :: "(string \<Rightarrow> 'a option) \<Rightarrow> string \<Rightarrow> nat \<Rightarrow> (string \<times> 'a) option" where
  "backtrack k s 0 = (case k s of Some g \<Rightarrow> Some ([], g) | None \<Rightarrow> None)"
| "backtrack k s (Suc i) =
     (case k (drop (Suc i) s) of
        Some g \<Rightarrow> Some (take (Suc i) s, g)
      | None \<Rightarrow> backtrack k s i)"

definition greedy_name :: "(string \<Rightarrow> 'a option) \<Rightarrow> string \<Rightarrow> (string \<times> 'a) option" where
  "greedy_name k s = backtrack k s (length (takeWhile dot s))"

text \<open>
  \<open>re.match(r'^(.*),\s(\d{6})\s\((\d)\)(|, (.*))$', phenotype)\<close>: groups 1, 2, 3 and 5.
\<close>

definition grammar_A :: "string \<Rightarrow> (string \<times> string \<times> string \<times> string option) option" where
  "grammar_A phenotype = greedy_name after_name_A phenotype"

text \<open>
  \<open>re.match(r'^(.*)\((\d)\)(|, (.*))$', phenotype)\<close>: groups 1, 2 and 4.
\<close>

definition grammar_B :: "string \<Rightarrow> (string \<times> string \<times> string option) option" where
  "grammar_B phenotype = greedy_name after_name_B phenotype"

section \<open>The records\<close>

text \<open>
  The dictionary appended to \<open>phenotypes\<close> (keys \<open>name\<close>, \<open>mim_number\<close>, \<open>mapping_key\<close>,
  \<open>inheritance\<close>; the fields carry the names of the variables that fill them), and the
  dictionary \<open>process_line\<close> returns.
\<close>

record phenotype_annotation =
  phenotype_name :: string
  phenotype_mim_number :: "string option"
  phenotype_mapping_key :: string
  inheritances :: "string list"

record gene_record =
  chromosome :: string
  genomic_position_start :: string
  genomic_position_end :: string
  cyto_location :: string
  computed_cyto_location :: string
  mim_number :: string
  gene_symbols :: string
  gene_name :: string
  approved_gene_symbol :: string
  entrez_gene_id :: string
  ensembl_gene_id :: string
  comments :: string
  mouse :: string
  phenotypes :: "phenotype_annotation list"

datatype error = ValueError string

section \<open>process_line\<close>

text \<open>\<open>matcher.group(n).split(', ') if matcher.group(n) else []\<close>.\<close>

definition inheritance_list :: "string option \<Rightarrow> string list" where
  "inheritance_list g =
     (case g of None \<Rightarrow> [] | Some t \<Rightarrow> if t = [] then [] else split_on '', '' t)"

text \<open>
  The body of the loop over the \<open>;\<close>-separated segments, from the stripped segment on:
  the first pattern, then the second, then \<open>continue\<close>.  The result is the dictionary
  to append, or \<open>None\<close> where the loop continues without appending.
\<close>

definition match_phenotype :: "string \<Rightarrow> phenotype_annotation option" where
  "match_phenotype phenotype =
     (case grammar_A phenotype of
        Some (n, m, k, g) \<Rightarrow>
          Some \<lparr>phenotype_name = n, phenotype_mim_number = Some m,
                phenotype_mapping_key = k, inheritances = inheritance_list g\<rparr>
      | None \<Rightarrow>
          (case grammar_B phenotype of
             Some (n, k, g) \<Rightarrow>
               Some \<lparr>phenotype_name = n, phenotype_mim_number = None,
                     phenotype_mapping_key = k, inheritances = inheritance_list g\<rparr>
           | None \<Rightarrow> None))"

definition parse_phenotype :: "string \<Rightarrow> phenotype_annotation option" where
  "parse_phenotype segment = match_phenotype (strip segment)"

fun phenotypes_loop :: "string list \<Rightarrow> phenotype_annotation list" where
  "phenotypes_loop [] = []"
| "phenotypes_loop (segment # segments) =
     (case parse_phenotype segment of
        None \<Rightarrow> phenotypes_loop segments
      | Some p \<Rightarrow> p # phenotypes_loop segments)"

definition parse_phenotypes :: "string \<Rightarrow> phenotype_annotation list" where
  "parse_phenotypes phenotype_string = phenotypes_loop (split_on '';'' phenotype_string)"

text \<open>
  \<open>process_line\<close>: \<open>Inr None\<close> is the returned \<open>None\<close>, \<open>Inr (Some r)\<close> the returned
  dictionary, \<open>Inl\<close> the \<open>ValueError\<close> raised when the unpacking into fourteen names
  fails.  The unpacking binds the names in the order of the assignment's left-hand
  side: \<open>phenotype_string\<close> is the thirteenth and \<open>mouse\<close> the fourteenth.
\<close>

definition process_line :: "string \<Rightarrow> error + gene_record option" where
  "process_line line =
     (if startswith line ''#'' \<or> strip line = [] then Inr None
      else
        let value_list = split_on [tab] (strip line) in
        if length value_list < 14 then Inr None
        else if length value_list \<noteq> 14
        then Inl (ValueError (''Unexpected number of columns in line: '' @ line))
        else
          let phenotype_string = value_list ! 12 in
          if phenotype_string = [] then Inr None
          else Inr (Some
            \<lparr>chromosome = value_list ! 0,
             genomic_position_start = value_list ! 1,
             genomic_position_end = value_list ! 2,
             cyto_location = value_list ! 3,
             computed_cyto_location = value_list ! 4,
             mim_number = value_list ! 5,
             gene_symbols = value_list ! 6,
             gene_name = value_list ! 7,
             approved_gene_symbol = value_list ! 8,
             entrez_gene_id = value_list ! 9,
             ensembl_gene_id = value_list ! 10,
             comments = value_list ! 11,
             mouse = value_list ! 13,
             phenotypes = parse_phenotypes phenotype_string\<rparr>))"

section \<open>parse_genemap2\<close>

text \<open>
  \<open>pool.map(f, xs)\<close>: each call runs in a worker process on its own argument.  When no
  call raises, the results come back in the order of the arguments.  When calls
  raise, \<open>map\<close> raises the exception of the batch that failed first, and which batch
  that is depends on the scheduling: the model gives the set of outcomes, one for
  every call that raises.
\<close>

fun raised :: "('e + 'b) list \<Rightarrow> 'e list" where
  "raised [] = []"
| "raised (Inl e # rs) = e # raised rs"
| "raised (Inr y # rs) = raised rs"

fun returned :: "('e + 'b) list \<Rightarrow> 'b list" where
  "returned [] = []"
| "returned (Inl e # rs) = returned rs"
| "returned (Inr y # rs) = y # returned rs"

definition pool_map :: "('a \<Rightarrow> 'e + 'b) \<Rightarrow> 'a list \<Rightarrow> ('e + 'b list) set" where
  "pool_map f xs =
     (let results = map f xs in
      if raised results = [] then {Inr (returned results)}
      else Inl ` set (raised results))"

text \<open>
  \<open>[entry for entry in parsed_data if entry]\<close>: \<open>None\<close> is false, and a dictionary
  returned by \<open>process_line\<close> has fourteen keys and so is true.
\<close>

definition truthy :: "gene_record option \<Rightarrow> bool" where
  "truthy entry = (entry \<noteq> None)"

text \<open>
  \<open>parse_genemap2\<close>, from the lines that \<open>file.readlines()\<close> returned: the outcomes
  of the call, a list of records returned or an error raised.
\<close>

definition parse_genemap2 :: "string list \<Rightarrow> (error + gene_record list) set" where
  "parse_genemap2 lines =
     (\<lambda>r. case r of
             Inl e \<Rightarrow> Inl e
           | Inr parsed_data \<Rightarrow> Inr (map the (filter truthy parsed_data)))
       ` pool_map process_line lines"

text \<open>
  The output as the specification words it: \<open>process_line\<close> applied to each line in
  order, the non-skip results kept.
\<close>

fun records_in_order :: "string list \<Rightarrow> gene_record list" where
  "records_in_order [] = []"
| "records_in_order (line # lines) =
     (case process_line line of
        Inr (Some r) \<Rightarrow> r # records_in_order lines
      | _ \<Rightarrow> records_in_order lines)"

section \<open>The right-most occurrence\<close>

text \<open>
  The places of a segment where \<open>, NNNNNN (n)\<close> stands (a comma, a whitespace
  character, six digits, a whitespace character, a digit in parentheses), from left
  to right: the last one is the right-most occurrence.
\<close>

definition occurrences :: "string \<Rightarrow> nat list" where
  "occurrences s = filter (\<lambda>j. mim_and_key (drop j s) \<noteq> None) [0..<length s]"

section \<open>Fixtures\<close>

text \<open>
  A line of a file written from its columns: the columns joined by tabs.  \<open>row\<close> is
  a data line with a newline at its end, whose first twelve columns are
  \<open>gene_columns\<close>.
\<close>

fun join_tab :: "string list \<Rightarrow> string" where
  "join_tab [] = []"
| "join_tab [f] = f"
| "join_tab (f # g # fs) = f @ tab # join_tab (g # fs)"

definition gene_columns :: "string list" where
  "gene_columns = [''1'', ''1000'', ''2000'', ''1p36'', ''1p36.33'', ''601000'',
                   ''ABC, DEF'', ''Gene one'', ''ABC'', ''12'', ''ENSG01'', ''note'']"

definition row :: "string list \<Rightarrow> string" where
  "row last_columns = join_tab (gene_columns @ last_columns) @ [newline]"

section \<open>Strings: strip and split\<close>

lemma split_from_length: "length (split_from [c] field s) = Suc (count_list s c)"
  by (induction s arbitrary: field) auto

lemma split_on_length: "length (split_on [c] s) = Suc (count_list s c)"
  by (simp add: split_on_def split_from_length)

lemma split_on_Nil: "split_on sep [] = [[]]"
  by (simp add: split_on_def)

lemma count_list_dropWhile_le: "count_list (dropWhile P xs) c \<le> count_list xs c"
  by (induction xs) auto

lemma count_list_strip_le: "count_list (strip s) c \<le> count_list s c"
  unfolding strip_def
  by (metis count_list_dropWhile_le count_list_rev le_trans)

lemma isspace_tab: "isspace tab"
  by (simp add: isspace_def tab_def whitespace_def)

text \<open>Whitespace at the end of a string does not survive \<open>strip\<close>.\<close>

lemma strip_append_space:
  assumes "\<forall>c\<in>set ws. isspace c"
  shows "strip (s @ ws) = strip s"
proof (cases "\<forall>c\<in>set s. isspace c")
  case True
  with assms have "dropWhile isspace (s @ ws) = []" "dropWhile isspace s = []"
    by auto
  then show ?thesis
    by (simp only: strip_def rev.simps dropWhile.simps)
next
  case False
  then obtain x where "x \<in> set s" "\<not> isspace x"
    by blast
  then have "dropWhile isspace (s @ ws) = dropWhile isspace s @ ws"
    by (rule dropWhile_append1)
  moreover have "dropWhile isspace (rev ws @ rev (dropWhile isspace s)) =
      dropWhile isspace (rev (dropWhile isspace s))"
    using assms by (intro dropWhile_append2) simp
  ultimately show ?thesis
    by (simp add: strip_def)
qed

section \<open>The outcomes of process_line\<close>

lemma process_line_skip:
  "startswith line ''#'' \<or> strip line = [] \<or> length (split_on [tab] (strip line)) < 14
   \<Longrightarrow> process_line line = Inr None"
  by (auto simp: process_line_def Let_def)

lemma process_line_Inl_iff:
  "process_line l = Inl e \<longleftrightarrow>
     \<not> startswith l ''#'' \<and> 14 < length (split_on [tab] (strip l)) \<and>
     e = ValueError (''Unexpected number of columns in line: '' @ l)"
  by (auto simp: process_line_def Let_def split_on_Nil)

lemma process_line_record:
  assumes "\<not> startswith line ''#''"
    and "split_on [tab] (strip line) = columns" "length columns = 14" "columns ! 12 \<noteq> []"
  shows "process_line line = Inr (Some
            \<lparr>chromosome = columns ! 0,
             genomic_position_start = columns ! 1,
             genomic_position_end = columns ! 2,
             cyto_location = columns ! 3,
             computed_cyto_location = columns ! 4,
             mim_number = columns ! 5,
             gene_symbols = columns ! 6,
             gene_name = columns ! 7,
             approved_gene_symbol = columns ! 8,
             entrez_gene_id = columns ! 9,
             ensembl_gene_id = columns ! 10,
             comments = columns ! 11,
             mouse = columns ! 13,
             phenotypes = parse_phenotypes (columns ! 12)\<rparr>)"
proof -
  have "strip line \<noteq> []"
    using assms(2,3) by (auto simp: split_on_Nil)
  then show ?thesis
    using assms by (simp add: process_line_def Let_def)
qed

section \<open>The outcomes of pool.map\<close>

lemma set_raised: "set (raised rs) = {e. Inl e \<in> set rs}"
  by (induction rs rule: raised.induct) auto

lemma records_in_order_returned:
  "raised (map process_line lines) = [] \<Longrightarrow>
   records_in_order lines = map the (filter truthy (returned (map process_line lines)))"
proof (induction lines)
  case Nil
  then show ?case by simp
next
  case (Cons l ls)
  show ?case
  proof (cases "process_line l")
    case (Inl e)
    with Cons.prems show ?thesis by simp
  next
    case (Inr entry)
    with Cons show ?thesis by (cases entry) (simp_all add: truthy_def)
  qed
qed

lemma only_outcome: "S \<noteq> {} \<Longrightarrow> \<forall>r\<in>S. r = x \<Longrightarrow> S = {x}"
  by auto

section \<open>The greedy name\<close>

lemma backtrack_None_iff: "backtrack k s n = None \<longleftrightarrow> (\<forall>i\<le>n. k (drop i s) = None)"
  by (induction n) (auto simp: le_Suc_eq split: option.splits)

text \<open>The longest name after which the rest of the pattern matches is the one bound.\<close>

lemma backtrack_rightmost:
  "i \<le> n \<Longrightarrow> k (drop i s) = Some g \<Longrightarrow> (\<forall>j. i < j \<and> j \<le> n \<longrightarrow> k (drop j s) = None)
   \<Longrightarrow> backtrack k s n = Some (take i s, g)"
proof (induction n)
  case 0
  then show ?case by simp
next
  case (Suc n)
  show ?case
  proof (cases "i = Suc n")
    case True
    with Suc.prems show ?thesis by simp
  next
    case False
    with Suc.prems have "i \<le> n" "k (drop (Suc n) s) = None"
      by auto
    with Suc show ?thesis by simp
  qed
qed

lemma backtrack_at_least:
  "i \<le> n \<Longrightarrow> k (drop i s) \<noteq> None \<Longrightarrow>
   \<exists>j g. i \<le> j \<and> j \<le> n \<and> k (drop j s) = Some g \<and> backtrack k s n = Some (take j s, g)"
proof (induction n)
  case 0
  then show ?case by auto
next
  case (Suc n)
  show ?case
  proof (cases "k (drop (Suc n) s)")
    case (Some g)
    with Suc.prems show ?thesis by auto
  next
    case None
    with Suc.prems have "i \<le> n"
      by (cases "i = Suc n") auto
    with Suc None show ?thesis
      by (auto simp: le_Suc_eq)
  qed
qed

lemma takeWhile_covers:
  assumes "\<forall>x\<in>set (take j s). P x" "j \<le> length s"
  shows "j \<le> length (takeWhile P s)"
proof -
  have "takeWhile P (take j s @ drop j s) = take j s @ takeWhile P (drop j s)"
    using assms(1) by (intro takeWhile_append2) simp
  then have "length (takeWhile P s) = j + length (takeWhile P (drop j s))"
    using assms(2) by simp
  then show ?thesis by simp
qed

lemma take_prefix_mono: "i \<le> j \<Longrightarrow> prefix (take i s) (take j s)"
  by (metis min.absorb1 take_is_prefix take_take)

section \<open>Occurrences of the number and key\<close>

lemma mim_and_key_Nil: "mim_and_key [] = None"
  by (simp add: mim_and_key_def)

lemma occurrences_iff: "j \<in> set (occurrences s) \<longleftrightarrow> mim_and_key (drop j s) \<noteq> None"
  by (cases "j < length s") (auto simp: occurrences_def mim_and_key_Nil)

lemma sorted_le_last: "sorted xs \<Longrightarrow> x \<in> set xs \<Longrightarrow> x \<le> last (xs :: nat list)"
  by (induction xs) auto

lemma occurrences_le_last: "j \<in> set (occurrences s) \<Longrightarrow> j \<le> last (occurrences s)"
  by (rule sorted_le_last) (simp_all add: occurrences_def sorted_wrt_filter)

lemma after_name_A_None: "mim_and_key r = None \<Longrightarrow> after_name_A r = None"
  by (simp add: after_name_A_def)

lemma grammar_A_at_last_occurrence:
  assumes "occurrences s \<noteq> []" "j = last (occurrences s)" "newline \<notin> set (take j s)"
    and "mim_and_key (drop j s) = Some (mim, key, rest)" "inheritance_tail rest = Some g"
  shows "grammar_A s = Some (take j s, mim, key, g)"
proof -
  have "j \<in> set (occurrences s)"
    using assms(1,2) by simp
  then have j: "j \<le> length s"
    by (simp add: occurrences_def)
  have "\<forall>x\<in>set (take j s). dot x"
    using assms(3) by (auto simp: dot_def)
  then have le: "j \<le> length (takeWhile dot s)"
    using j by (rule takeWhile_covers)
  have here: "after_name_A (drop j s) = Some (mim, key, g)"
    using assms(4,5) by (simp add: after_name_A_def)
  have later: "after_name_A (drop i s) = None" if "j < i" for i
  proof -
    have "i \<notin> set (occurrences s)"
      using that assms(2) occurrences_le_last[of i s] by auto
    then have "mim_and_key (drop i s) = None"
      using occurrences_iff[of i s] by blast
    then show ?thesis
      by (rule after_name_A_None)
  qed
  show ?thesis
    unfolding grammar_A_def greedy_name_def
    using le here later by (intro backtrack_rightmost) auto
qed

section \<open>A number that is not six digits long\<close>

lemma isdigit_simps:
  "isdigit c \<Longrightarrow> \<not> isspace c" "isdigit c \<Longrightarrow> c \<noteq> newline" "isdigit c \<Longrightarrow> c \<noteq> CHR ''(''"
  "\<not> isdigit CHR '' ''" "isspace CHR '' ''"
  by (auto simp: isdigit_def isspace_def whitespace_def newline_def)

lemma digits_short:
  assumes "length ds < n" "\<not> isdigit c"
  shows "digits n (ds @ c # r) = None"
proof -
  have "c \<in> set (take n (ds @ c # r))"
    using assms(1) by (cases "n - length ds") auto
  then show ?thesis
    using assms(2) by (auto simp: digits_def list_all_iff)
qed

lemma digits_long:
  assumes "list_all isdigit ds" "n < length ds"
  shows "digits n (ds @ r) = Some (take n ds, drop n ds @ r)"
  using assms by (auto simp: digits_def list_all_iff dest: in_set_takeD)

lemma not_six_digits:
  assumes "list_all isdigit ds" "length ds \<noteq> 6"
  shows "mim_and_key ('', '' @ ds @ '' ('' @ r) = None"
proof (cases "length ds < 6")
  case True
  then have "digits 6 (ds @ CHR '' '' # CHR ''('' # r) = None"
    by (intro digits_short) (simp_all add: isdigit_simps)
  then show ?thesis
    by (simp add: mim_and_key_def isdigit_simps)
next
  case False
  with assms(2) have long: "6 < length ds"
    by simp
  then obtain d rest where d: "drop 6 ds = d # rest"
    by (cases "drop 6 ds") auto
  then have "d \<in> set ds"
    by (metis in_set_dropD list.set_intros(1))
  then have "\<not> isspace d"
    using assms(1) by (simp add: list_all_iff isdigit_simps)
  moreover have "digits 6 (ds @ CHR '' '' # CHR ''('' # r) =
      Some (take 6 ds, drop 6 ds @ CHR '' '' # CHR ''('' # r)"
    using assms(1) long by (rule digits_long)
  ultimately show ?thesis
    by (simp add: mim_and_key_def isdigit_simps d)
qed

lemma after_name_B_here:
  "isdigit k \<Longrightarrow> inheritance_tail tail = Some g \<Longrightarrow>
   after_name_B (CHR ''('' # k # CHR '')'' # tail) = Some ([k], g)"
  by (simp add: after_name_B_def key_only_def)

lemma after_name_B_no_paren:
  assumes "CHR ''('' \<notin> set xs"
  shows "after_name_B (drop m xs) = None"
proof (cases "drop m xs")
  case Nil
  then show ?thesis
    by (simp add: after_name_B_def key_only_def)
next
  case (Cons y ys)
  then have "y \<in> set xs"
    by (metis in_set_dropD list.set_intros(1))
  with assms have "y \<noteq> CHR ''(''"
    by auto
  then show ?thesis
    by (simp add: after_name_B_def key_only_def Cons)
qed

section \<open>The loop over the segments\<close>

lemma phenotypes_loop_append:
  "phenotypes_loop (xs @ ys) = phenotypes_loop xs @ phenotypes_loop ys"
  by (induction xs) (auto split: option.splits)

lemma phenotypes_loop_none:
  "\<forall>segment\<in>set segments. parse_phenotype segment = None \<Longrightarrow> phenotypes_loop segments = []"
  by (induction segments) auto

section \<open>Rows: skipping and binding\<close>

text \<open>
  C1, as amended.  For every line whose stripped text splits into exactly fourteen
  tab-separated columns, if the phenotype column (the thirteenth, \<open>phenotype_string\<close>)
  is the empty string, \<open>process_line\<close> returns \<open>None\<close>, whatever the other thirteen
  columns hold.  The column is tested as it stands, without trimming.
\<close>

theorem empty_phenotype_skipped:
  assumes "length (split_on [tab] (strip line)) = 14"
    and "split_on [tab] (strip line) ! 12 = []"
  shows "process_line line = Inr None"
  using assms by (simp add: process_line_def Let_def)

theorem empty_phenotype_skipped_witness:
  "length (split_on [tab] (strip (row ['''', ''Abc (MGI:1)'']))) = 14 \<and>
   split_on [tab] (strip (row ['''', ''Abc (MGI:1)''])) ! 12 = [] \<and>
   process_line (row ['''', ''Abc (MGI:1)'']) = Inr None"
proof -
  have 1: "length (split_on [tab] (strip (row ['''', ''Abc (MGI:1)'']))) = 14"
    by code_simp
  have 2: "split_on [tab] (strip (row ['''', ''Abc (MGI:1)''])) ! 12 = []"
    by code_simp
  from 1 2 empty_phenotype_skipped[OF 1 2] show ?thesis
    by simp
qed

text \<open>
  C1 as stated fails: a phenotype column that holds one space is empty after trimming,
  yet the row produces a record, with no phenotypes.
\<close>

theorem blank_phenotype_counterexample:
  "length (split_on [tab] (strip (row ['' '', ''Abc (MGI:1)'']))) = 14 \<and>
   strip (split_on [tab] (strip (row ['' '', ''Abc (MGI:1)''])) ! 12) = [] \<and>
   process_line (row ['' '', ''Abc (MGI:1)'']) =
     Inr (Some \<lparr>chromosome = ''1'', genomic_position_start = ''1000'',
          genomic_position_end = ''2000'', cyto_location = ''1p36'',
          computed_cyto_location = ''1p36.33'', mim_number = ''601000'',
          gene_symbols = ''ABC, DEF'', gene_name = ''Gene one'',
          approved_gene_symbol = ''ABC'', entrez_gene_id = ''12'',
          ensembl_gene_id = ''ENSG01'', comments = ''note'',
          mouse = ''Abc (MGI:1)'', phenotypes = []\<rparr>)"
  by code_simp

text \<open>
  C2, as amended.  For every line that is not a comment and whose stripped text
  splits into exactly fourteen tab-separated columns, the thirteenth non-empty, the
  columns are bound in the order of the assignment in \<open>process_line\<close>: columns 0 to 11
  to \<open>chromosome\<close> ... \<open>comments\<close>, column 12 (zero-indexed) is the phenotype
  column handed to the annotation parser, and column 13 is bound to \<open>mouse\<close>.
\<close>

theorem columns_bound_in_order:
  assumes "\<not> startswith line ''#''"
    and "split_on [tab] (strip line) = columns" "length columns = 14" "columns ! 12 \<noteq> []"
  shows "process_line line = Inr (Some
            \<lparr>chromosome = columns ! 0,
             genomic_position_start = columns ! 1,
             genomic_position_end = columns ! 2,
             cyto_location = columns ! 3,
             computed_cyto_location = columns ! 4,
             mim_number = columns ! 5,
             gene_symbols = columns ! 6,
             gene_name = columns ! 7,
             approved_gene_symbol = columns ! 8,
             entrez_gene_id = columns ! 9,
             ensembl_gene_id = columns ! 10,
             comments = columns ! 11,
             mouse = columns ! 13,
             phenotypes = parse_phenotypes (columns ! 12)\<rparr>)"
  using assms by (rule process_line_record)

theorem columns_bound_in_order_witness:
  "process_line (row [''Some syndrome(1)'', ''Abc (MGI:1)'']) =
     Inr (Some \<lparr>chromosome = ''1'', genomic_position_start = ''1000'',
          genomic_position_end = ''2000'', cyto_location = ''1p36'',
          computed_cyto_location = ''1p36.33'', mim_number = ''601000'',
          gene_symbols = ''ABC, DEF'', gene_name = ''Gene one'',
          approved_gene_symbol = ''ABC'', entrez_gene_id = ''12'',
          ensembl_gene_id = ''ENSG01'', comments = ''note'',
          mouse = ''Abc (MGI:1)'',
          phenotypes = parse_phenotypes ''Some syndrome(1)''\<rparr>)"
proof -
  have 1: "\<not> startswith (row [''Some syndrome(1)'', ''Abc (MGI:1)'']) ''#''"
    by code_simp
  have 2: "split_on [tab] (strip (row [''Some syndrome(1)'', ''Abc (MGI:1)''])) =
      gene_columns @ [''Some syndrome(1)'', ''Abc (MGI:1)'']"
    by code_simp
  have 3: "length (gene_columns @ [''Some syndrome(1)'', ''Abc (MGI:1)'']) = 14"
    by code_simp
  have 4: "(gene_columns @ [''Some syndrome(1)'', ''Abc (MGI:1)'']) ! 12 \<noteq> []"
    by code_simp
  show ?thesis
    using columns_bound_in_order[OF 1 2 3 4] by (simp add: gene_columns_def)
qed

text \<open>
  C2 as stated fails: in this row column 12 is \<open>Some syndrome(1)\<close> and column 13 is
  \<open>Abc (MGI:1)\<close>; the record's \<open>mouse\<close> is column 13, and its phenotypes are those of
  column 12, while column 13 holds no phenotype at all.
\<close>

theorem mouse_column_counterexample:
  "split_on [tab] (strip (row [''Some syndrome(1)'', ''Abc (MGI:1)''])) ! 12 = ''Some syndrome(1)'' \<and>
   split_on [tab] (strip (row [''Some syndrome(1)'', ''Abc (MGI:1)''])) ! 13 = ''Abc (MGI:1)'' \<and>
   process_line (row [''Some syndrome(1)'', ''Abc (MGI:1)'']) =
     Inr (Some \<lparr>chromosome = ''1'', genomic_position_start = ''1000'',
          genomic_position_end = ''2000'', cyto_location = ''1p36'',
          computed_cyto_location = ''1p36.33'', mim_number = ''601000'',
          gene_symbols = ''ABC, DEF'', gene_name = ''Gene one'',
          approved_gene_symbol = ''ABC'', entrez_gene_id = ''12'',
          ensembl_gene_id = ''ENSG01'', comments = ''note'',
          mouse = ''Abc (MGI:1)'',
          phenotypes = [\<lparr>phenotype_name = ''Some syndrome'', phenotype_mim_number = None,
                          phenotype_mapping_key = ''1'', inheritances = []\<rparr>]\<rparr>) \<and>
   parse_phenotypes ''Abc (MGI:1)'' = []"
  by code_simp

text \<open>
  C8.  A line that begins with \<open>#\<close>, or is blank after stripping, or whose stripped
  text splits into fewer than fourteen tab-separated columns, is skipped:
  \<open>process_line\<close> returns \<open>None\<close> and raises nothing.
\<close>

theorem comment_blank_short_skipped:
  assumes "startswith line ''#'' \<or> strip line = [] \<or> length (split_on [tab] (strip line)) < 14"
  shows "process_line line = Inr None"
  using assms by (rule process_line_skip)

theorem comment_blank_short_skipped_witness:
  "process_line ''# Chromosome'' = Inr None \<and>
   process_line ('' '' @ [newline]) = Inr None \<and>
   length (split_on [tab] (strip (row [''Some syndrome(1)'']))) = 13 \<and>
   process_line (row [''Some syndrome(1)'']) = Inr None"
proof -
  have 1: "startswith ''# Chromosome'' ''#''"
    by code_simp
  have 2: "strip ('' '' @ [newline]) = []"
    by code_simp
  have 3: "length (split_on [tab] (strip (row [''Some syndrome(1)'']))) = 13"
    by code_simp
  show ?thesis
    using comment_blank_short_skipped[of "''# Chromosome''"]
      comment_blank_short_skipped[of "'' '' @ [newline]"]
      comment_blank_short_skipped[of "row [''Some syndrome(1)'']"] 1 2 3
    by simp
qed

text \<open>
  C9.  A line with exactly thirteen tabs whose last column is empty, that is, whose
  text ends with a tab followed by nothing but the newline (here: by whitespace
  only), is skipped with no record and no error: \<open>strip\<close> removes the final tab with
  the whitespace, so that fewer than fourteen columns remain.  Exactly thirteen
  remain when the text before the final tab has no whitespace at either end.
\<close>

theorem trailing_tab_skipped:
  assumes "line = body @ tab # eol" "\<forall>c\<in>set eol. isspace c" "count_list line tab = 13"
  shows "process_line line = Inr None \<and>
         length (split_on [tab] (strip line)) \<le> 13 \<and>
         (strip body = body \<and> tab \<notin> set eol \<longrightarrow> length (split_on [tab] (strip line)) = 13)"
proof -
  have strip: "strip line = strip body"
    using assms(1,2) strip_append_space[of "tab # eol" body] isspace_tab by simp
  have "count_list body tab \<le> 12"
    using assms(1,3) by simp
  then have "count_list (strip line) tab \<le> 12"
    using count_list_strip_le[of body tab] strip by simp
  then have le: "length (split_on [tab] (strip line)) \<le> 13"
    by (simp add: split_on_length)
  then have "process_line line = Inr None"
    by (simp add: process_line_skip)
  moreover have "length (split_on [tab] (strip line)) = 13" if "strip body = body" "tab \<notin> set eol"
  proof -
    have "count_list eol tab = 0"
      using that(2) by simp
    then have "count_list body tab = 12"
      using assms(1,3) by simp
    then show ?thesis
      using strip that(1) by (simp add: split_on_length)
  qed
  ultimately show ?thesis
    using le by blast
qed

theorem trailing_tab_skipped_witness:
  "count_list (row [''Some syndrome(1)'', '''']) tab = 13 \<and>
   process_line (row [''Some syndrome(1)'', '''']) = Inr None \<and>
   length (split_on [tab] (strip (row [''Some syndrome(1)'', '''']))) = 13"
proof -
  have 1: "row [''Some syndrome(1)'', ''''] = join_tab (gene_columns @ [''Some syndrome(1)'']) @ tab # [newline]"
    by code_simp
  have 2: "\<forall>c\<in>set [newline]. isspace c"
    by code_simp
  have 3: "count_list (row [''Some syndrome(1)'', '''']) tab = 13"
    by code_simp
  have 4: "strip (join_tab (gene_columns @ [''Some syndrome(1)''])) = join_tab (gene_columns @ [''Some syndrome(1)''])"
    by code_simp
  have 5: "tab \<notin> set [newline]"
    by code_simp
  show ?thesis
    using trailing_tab_skipped[OF 1 2 3] 3 4 5 by simp
qed

section \<open>The batch\<close>

text \<open>
  C3, as amended.  When some line of the input is a data line (not a comment, not
  blank) whose text, stripped of the whitespace at both ends (tabs included), splits
  into more than fourteen tab-separated columns, \<open>parse_genemap2\<close> has an outcome,
  and every outcome is the \<open>ValueError\<close> raised for such a line of the input, its
  message ending with that line as it was read.  No outcome is a list of records.
\<close>

theorem overflow_aborts_batch:
  assumes "l \<in> set lines" "\<not> startswith l ''#''" "14 < length (split_on [tab] (strip l))"
  shows "parse_genemap2 lines \<noteq> {} \<and>
    (\<forall>r\<in>parse_genemap2 lines. \<exists>l'\<in>set lines.
        \<not> startswith l' ''#'' \<and> 14 < length (split_on [tab] (strip l')) \<and>
        r = Inl (ValueError (''Unexpected number of columns in line: '' @ l')))"
proof -
  let ?e = "ValueError (''Unexpected number of columns in line: '' @ l)"
  have "process_line l = Inl ?e"
    using assms(2,3) by (simp add: process_line_Inl_iff)
  then have "Inl ?e \<in> set (map process_line lines)"
    using assms(1) by force
  then have mem: "?e \<in> set (raised (map process_line lines))"
    by (simp add: set_raised)
  then have "raised (map process_line lines) \<noteq> []"
    by auto
  then have out: "parse_genemap2 lines = Inl ` set (raised (map process_line lines))"
    by (simp add: parse_genemap2_def pool_map_def image_image)
  have "parse_genemap2 lines \<noteq> {}"
    using mem out by auto
  moreover have "\<exists>l'\<in>set lines.
        \<not> startswith l' ''#'' \<and> 14 < length (split_on [tab] (strip l')) \<and>
        r = Inl (ValueError (''Unexpected number of columns in line: '' @ l'))"
    if "r \<in> parse_genemap2 lines" for r
  proof -
    from that out obtain e where r: "r = Inl e" and "e \<in> set (raised (map process_line lines))"
      by auto
    then have "Inl e \<in> set (map process_line lines)"
      by (simp add: set_raised)
    then obtain l' where "l' \<in> set lines" "process_line l' = Inl e"
      by auto
    then show ?thesis
      using r by (auto simp: process_line_Inl_iff)
  qed
  ultimately show ?thesis
    by blast
qed

theorem overflow_aborts_batch_witness:
  "parse_genemap2
     [''# Chromosome'', row [''Some syndrome(1)'', ''Abc (MGI:1)''],
      row [''Some syndrome(1)'', ''Abc (MGI:1)'', ''extra'']] =
   {Inl (ValueError (''Unexpected number of columns in line: '' @
           row [''Some syndrome(1)'', ''Abc (MGI:1)'', ''extra'']))}"
proof -
  define l where "l = row [''Some syndrome(1)'', ''Abc (MGI:1)'', ''extra'']"
  define ls where "ls = [''# Chromosome'', row [''Some syndrome(1)'', ''Abc (MGI:1)''], l]"
  have 1: "l \<in> set ls"
    by (simp add: ls_def)
  have 2: "\<not> startswith l ''#''"
    unfolding l_def by code_simp
  have 3: "14 < length (split_on [tab] (strip l))"
    unfolding l_def by code_simp
  have 4: "\<forall>l'\<in>set ls. \<not> startswith l' ''#'' \<and> 14 < length (split_on [tab] (strip l')) \<longrightarrow> l' = l"
    unfolding ls_def l_def by code_simp
  define over where "over = (\<lambda>l'. \<not> startswith l' ''#'' \<and> 14 < length (split_on [tab] (strip l')))"
  define msg where "msg = ''Unexpected number of columns in line: ''"
  have only: "\<forall>l'\<in>set ls. over l' \<longrightarrow> l' = l"
    unfolding over_def by (rule 4)
  have "parse_genemap2 ls \<noteq> {} \<and>
      (\<forall>r\<in>parse_genemap2 ls. \<exists>l'\<in>set ls. over l' \<and> r = Inl (ValueError (msg @ l')))"
    unfolding over_def msg_def conj_assoc by (rule overflow_aborts_batch[OF 1 2 3])
  then have ne: "parse_genemap2 ls \<noteq> {}"
    and every: "\<forall>r\<in>parse_genemap2 ls. \<exists>l'\<in>set ls. over l' \<and> r = Inl (ValueError (msg @ l'))"
    by (rule conjunct1, rule conjunct2)
  have "\<forall>r\<in>parse_genemap2 ls. r = Inl (ValueError (msg @ l))"
  proof
    fix r
    assume "r \<in> parse_genemap2 ls"
    with every obtain l' where "l' \<in> set ls" "over l'" "r = Inl (ValueError (msg @ l'))"
      by auto
    with only show "r = Inl (ValueError (msg @ l))"
      by auto
  qed
  with ne have "parse_genemap2 ls = {Inl (ValueError (msg @ l))}"
    by (rule only_outcome)
  then show ?thesis
    unfolding ls_def l_def msg_def .
qed

text \<open>
  C3 as stated fails: each of these two data lines splits into fifteen
  tab-separated columns, the first with an empty column before the fourteen of a
  valid row (fifteen also once the whitespace at its end is removed), the second with
  an empty column after them.  \<open>strip\<close> removes the tab at the end of the line it
  stands at, fourteen columns remain, and \<open>parse_genemap2\<close> returns the record of
  the row instead of raising.
\<close>

theorem empty_outer_column_counterexample:
  "\<not> startswith (tab # row [''Some syndrome(1)'', ''Abc (MGI:1)'']) ''#'' \<and>
   length (split_on [tab] (tab # row [''Some syndrome(1)'', ''Abc (MGI:1)''])) = 15 \<and>
   length (split_on [tab]
     (rev (dropWhile isspace (rev (tab # row [''Some syndrome(1)'', ''Abc (MGI:1)'']))))) = 15 \<and>
   parse_genemap2 [tab # row [''Some syndrome(1)'', ''Abc (MGI:1)'']] =
     {Inr [\<lparr>chromosome = ''1'', genomic_position_start = ''1000'',
          genomic_position_end = ''2000'', cyto_location = ''1p36'',
          computed_cyto_location = ''1p36.33'', mim_number = ''601000'',
          gene_symbols = ''ABC, DEF'', gene_name = ''Gene one'',
          approved_gene_symbol = ''ABC'', entrez_gene_id = ''12'',
          ensembl_gene_id = ''ENSG01'', comments = ''note'',
          mouse = ''Abc (MGI:1)'',
          phenotypes = [\<lparr>phenotype_name = ''Some syndrome'', phenotype_mim_number = None,
                          phenotype_mapping_key = ''1'', inheritances = []\<rparr>]\<rparr>]} \<and>
   \<not> startswith (row [''Some syndrome(1)'', ''Abc (MGI:1)'', []]) ''#'' \<and>
   length (split_on [tab] (row [''Some syndrome(1)'', ''Abc (MGI:1)'', []])) = 15 \<and>
   parse_genemap2 [row [''Some syndrome(1)'', ''Abc (MGI:1)'', []]] =
     {Inr [\<lparr>chromosome = ''1'', genomic_position_start = ''1000'',
          genomic_position_end = ''2000'', cyto_location = ''1p36'',
          computed_cyto_location = ''1p36.33'', mim_number = ''601000'',
          gene_symbols = ''ABC, DEF'', gene_name = ''Gene one'',
          approved_gene_symbol = ''ABC'', entrez_gene_id = ''12'',
          ensembl_gene_id = ''ENSG01'', comments = ''note'',
          mouse = ''Abc (MGI:1)'',
          phenotypes = [\<lparr>phenotype_name = ''Some syndrome'', phenotype_mim_number = None,
                          phenotype_mapping_key = ''1'', inheritances = []\<rparr>]\<rparr>]}"
  by code_simp

text \<open>
  C4.  When no line of the input raises, \<open>parse_genemap2\<close> has the one outcome
  \<open>records_in_order\<close>: \<open>process_line\<close> applied to each line in order, the records
  of the lines that are not skipped kept, once each and in the order of their lines.
\<close>

theorem output_in_line_order:
  assumes "raised (map process_line lines) = []"
  shows "parse_genemap2 lines = {Inr (records_in_order lines)}"
  using assms by (simp add: parse_genemap2_def pool_map_def records_in_order_returned)

theorem output_in_line_order_witness:
  "parse_genemap2
     [''# Chromosome'', row [''Some syndrome(1)'', ''Abc (MGI:1)''], [newline],
      row [''Some syndrome(1)''], '' '' @ [newline],
      row [''Retinitis pigmentosa, 268000 (3), Autosomal recessive'', ''Def (MGI:2)'']] =
   {Inr (records_in_order
     [''# Chromosome'', row [''Some syndrome(1)'', ''Abc (MGI:1)''], [newline],
      row [''Some syndrome(1)''], '' '' @ [newline],
      row [''Retinitis pigmentosa, 268000 (3), Autosomal recessive'', ''Def (MGI:2)'']])} \<and>
   map mouse (records_in_order
     [''# Chromosome'', row [''Some syndrome(1)'', ''Abc (MGI:1)''], [newline],
      row [''Some syndrome(1)''], '' '' @ [newline],
      row [''Retinitis pigmentosa, 268000 (3), Autosomal recessive'', ''Def (MGI:2)'']]) =
   [''Abc (MGI:1)'', ''Def (MGI:2)'']"
proof -
  define ls where "ls = [''# Chromosome'', row [''Some syndrome(1)'', ''Abc (MGI:1)''], [newline],
      row [''Some syndrome(1)''], '' '' @ [newline],
      row [''Retinitis pigmentosa, 268000 (3), Autosomal recessive'', ''Def (MGI:2)'']]"
  have 1: "raised (map process_line ls) = []"
    unfolding ls_def by code_simp
  have 2: "map mouse (records_in_order ls) = [''Abc (MGI:1)'', ''Def (MGI:2)'']"
    unfolding ls_def by code_simp
  from output_in_line_order[OF 1] 2
  have "parse_genemap2 ls = {Inr (records_in_order ls)} \<and>
      map mouse (records_in_order ls) = [''Abc (MGI:1)'', ''Def (MGI:2)'']"
    by (rule conjI)
  then show ?thesis
    unfolding ls_def .
qed

section \<open>Segments: the two grammars\<close>

text \<open>
  C5.  The segment \<open>Retinitis pigmentosa, 268000 (3), Autosomal recessive\<close> matches
  the first pattern (Grammar A) and gives the annotation with name
  \<open>Retinitis pigmentosa\<close>, mim number \<open>268000\<close>, mapping key \<open>3\<close> and the one
  inheritance \<open>Autosomal recessive\<close>.
\<close>

theorem retinitis_pigmentosa_parses:
  "grammar_A ''Retinitis pigmentosa, 268000 (3), Autosomal recessive'' =
     Some (''Retinitis pigmentosa'', ''268000'', ''3'', Some ''Autosomal recessive'') \<and>
   parse_phenotype ''Retinitis pigmentosa, 268000 (3), Autosomal recessive'' =
     Some \<lparr>phenotype_name = ''Retinitis pigmentosa'', phenotype_mim_number = Some ''268000'',
           phenotype_mapping_key = ''3'', inheritances = [''Autosomal recessive'']\<rparr>"
  by code_simp

text \<open>
  C6, as amended.  For every segment in which \<open>, NNNNNN (n)\<close> occurs (once or more),
  if the right-most occurrence is preceded by no line break and is followed by the
  end of the segment or by a comma, a space and further text, then Grammar A binds
  the name up to that right-most occurrence: its six digits and its key become
  \<open>mim_number\<close> and \<open>mapping_key\<close>, and everything before it becomes the name.
\<close>

theorem rightmost_occurrence_wins:
  assumes "occurrences s \<noteq> []" "j = last (occurrences s)" "newline \<notin> set (take j s)"
    and "mim_and_key (drop j s) = Some (mim, key, rest)" "inheritance_tail rest = Some g"
  shows "grammar_A s = Some (take j s, mim, key, g) \<and>
         match_phenotype s =
           Some \<lparr>phenotype_name = take j s, phenotype_mim_number = Some mim,
                 phenotype_mapping_key = key, inheritances = inheritance_list g\<rparr>"
  using grammar_A_at_last_occurrence[OF assms] by (simp add: match_phenotype_def)

theorem rightmost_occurrence_wins_witness:
  "occurrences ''A, 111111 (1), B, 222222 (2)'' = [1, 16] \<and>
   grammar_A ''A, 111111 (1), B, 222222 (2)'' = Some (''A, 111111 (1), B'', ''222222'', ''2'', None) \<and>
   match_phenotype ''A, 111111 (1), B, 222222 (2)'' =
     Some \<lparr>phenotype_name = ''A, 111111 (1), B'', phenotype_mim_number = Some ''222222'',
           phenotype_mapping_key = ''2'', inheritances = []\<rparr>"
proof -
  define s where "s = ''A, 111111 (1), B, 222222 (2)''"
  have occ: "occurrences s = [1, 16]"
    unfolding s_def by code_simp
  have 1: "occurrences s \<noteq> []"
    by (simp add: occ)
  have 2: "16 = last (occurrences s)"
    by (simp add: occ)
  have 3: "newline \<notin> set (take 16 s)"
    unfolding s_def by code_simp
  have 4: "mim_and_key (drop 16 s) = Some (''222222'', ''2'', [])"
    unfolding s_def by code_simp
  have 5: "inheritance_tail [] = Some None"
    by code_simp
  have 6: "take 16 s = ''A, 111111 (1), B''"
    unfolding s_def by code_simp
  have 7: "inheritance_list None = []"
    by code_simp
  from rightmost_occurrence_wins[OF 1 2 3 4 5] occ
  have "occurrences s = [1, 16] \<and>
    grammar_A s = Some (''A, 111111 (1), B'', ''222222'', ''2'', None) \<and>
    match_phenotype s =
     Some \<lparr>phenotype_name = ''A, 111111 (1), B'', phenotype_mim_number = Some ''222222'',
           phenotype_mapping_key = ''2'', inheritances = []\<rparr>"
    unfolding 6 7 by simp
  then show ?thesis
    unfolding s_def .
qed

text \<open>
  C6 as stated fails: in this segment the pattern occurs at places 1 and 16, the
  right-most occurrence carries \<open>222222\<close> and key \<open>2\<close>, but it is followed by
  \<open> x\<close>, so Grammar A binds the first occurrence and takes the rest as the
  inheritance text.
\<close>

theorem rightmost_occurrence_counterexample:
  "occurrences ''A, 111111 (1), B, 222222 (2) x'' = [1, 16] \<and>
   mim_and_key (drop 16 ''A, 111111 (1), B, 222222 (2) x'') = Some (''222222'', ''2'', '' x'') \<and>
   grammar_A ''A, 111111 (1), B, 222222 (2) x'' =
     Some (''A'', ''111111'', ''1'', Some ''B, 222222 (2) x'') \<and>
   match_phenotype ''A, 111111 (1), B, 222222 (2) x'' =
     Some \<lparr>phenotype_name = ''A'', phenotype_mim_number = Some ''111111'',
           phenotype_mapping_key = ''1'', inheritances = [''B'', ''222222 (2) x'']\<rparr>"
  by code_simp

text \<open>
  C7.  A segment that matches neither pattern, such as
  \<open>malformed entry without parens\<close>, is dropped without error: the loop goes on
  with the segments before and after it.  When every \<open>;\<close>-segment of the
  phenotype column of an otherwise valid row matches neither pattern, the row still
  produces a record, and its phenotypes are empty.
\<close>

theorem unmatched_segments_dropped:
  "grammar_A ''malformed entry without parens'' = None \<and>
   grammar_B ''malformed entry without parens'' = None \<and>
   parse_phenotype ''malformed entry without parens'' = None \<and>
   (\<forall>before segment after.
      grammar_A (strip segment) = None \<and> grammar_B (strip segment) = None \<longrightarrow>
      phenotypes_loop (before @ segment # after) =
        phenotypes_loop before @ phenotypes_loop after) \<and>
   (\<forall>line.
      \<not> startswith line ''#'' \<and> length (split_on [tab] (strip line)) = 14 \<and>
      split_on [tab] (strip line) ! 12 \<noteq> [] \<and>
      (\<forall>segment\<in>set (split_on '';'' (split_on [tab] (strip line) ! 12)).
         grammar_A (strip segment) = None \<and> grammar_B (strip segment) = None) \<longrightarrow>
      (\<exists>r. process_line line = Inr (Some r) \<and> phenotypes r = [] \<and>
           mouse r = split_on [tab] (strip line) ! 13))"
proof -
  have neither: "parse_phenotype segment = None"
    if "grammar_A (strip segment) = None \<and> grammar_B (strip segment) = None" for segment
    using that by (simp add: parse_phenotype_def match_phenotype_def)
  have example: "grammar_A ''malformed entry without parens'' = None \<and>
      grammar_B ''malformed entry without parens'' = None \<and>
      parse_phenotype ''malformed entry without parens'' = None"
    by code_simp
  have segments: "phenotypes_loop (before @ segment # after) =
        phenotypes_loop before @ phenotypes_loop after"
    if "grammar_A (strip segment) = None \<and> grammar_B (strip segment) = None"
    for before segment after
    using neither[OF that] by (simp add: phenotypes_loop_append)
  have rows: "\<exists>r. process_line line = Inr (Some r) \<and> phenotypes r = [] \<and>
           mouse r = split_on [tab] (strip line) ! 13"
    if "\<not> startswith line ''#'' \<and> length (split_on [tab] (strip line)) = 14 \<and>
      split_on [tab] (strip line) ! 12 \<noteq> [] \<and>
      (\<forall>segment\<in>set (split_on '';'' (split_on [tab] (strip line) ! 12)).
         grammar_A (strip segment) = None \<and> grammar_B (strip segment) = None)"
    for line
  proof -
    have "\<forall>segment\<in>set (split_on '';'' (split_on [tab] (strip line) ! 12)).
        parse_phenotype segment = None"
      using that neither by blast
    then have "parse_phenotypes (split_on [tab] (strip line) ! 12) = []"
      unfolding parse_phenotypes_def by (rule phenotypes_loop_none)
    moreover have "process_line line = Inr (Some
            \<lparr>chromosome = split_on [tab] (strip line) ! 0,
             genomic_position_start = split_on [tab] (strip line) ! 1,
             genomic_position_end = split_on [tab] (strip line) ! 2,
             cyto_location = split_on [tab] (strip line) ! 3,
             computed_cyto_location = split_on [tab] (strip line) ! 4,
             mim_number = split_on [tab] (strip line) ! 5,
             gene_symbols = split_on [tab] (strip line) ! 6,
             gene_name = split_on [tab] (strip line) ! 7,
             approved_gene_symbol = split_on [tab] (strip line) ! 8,
             entrez_gene_id = split_on [tab] (strip line) ! 9,
             ensembl_gene_id = split_on [tab] (strip line) ! 10,
             comments = split_on [tab] (strip line) ! 11,
             mouse = split_on [tab] (strip line) ! 13,
             phenotypes = parse_phenotypes (split_on [tab] (strip line) ! 12)\<rparr>)"
      using that by (intro process_line_record) simp_all
    ultimately show ?thesis
      by simp
  qed
  from example segments rows show ?thesis
    by (intro conjI allI impI) (simp_all only:)
qed

theorem unmatched_segments_dropped_witness:
  "\<exists>r. process_line (row [''malformed entry without parens; another'', ''Abc (MGI:1)'']) =
          Inr (Some r) \<and>
        phenotypes r = [] \<and> mouse r = ''Abc (MGI:1)''"
proof -
  define line where "line = row [''malformed entry without parens; another'', ''Abc (MGI:1)'']"
  have 1: "\<not> startswith line ''#'' \<and> length (split_on [tab] (strip line)) = 14 \<and>
      split_on [tab] (strip line) ! 12 \<noteq> [] \<and>
      (\<forall>segment\<in>set (split_on '';'' (split_on [tab] (strip line) ! 12)).
         grammar_A (strip segment) = None \<and> grammar_B (strip segment) = None)"
    unfolding line_def by code_simp
  have 2: "split_on [tab] (strip line) ! 13 = ''Abc (MGI:1)''"
    unfolding line_def by code_simp
  have "\<forall>line.
      \<not> startswith line ''#'' \<and> length (split_on [tab] (strip line)) = 14 \<and>
      split_on [tab] (strip line) ! 12 \<noteq> [] \<and>
      (\<forall>segment\<in>set (split_on '';'' (split_on [tab] (strip line) ! 12)).
         grammar_A (strip segment) = None \<and> grammar_B (strip segment) = None) \<longrightarrow>
      (\<exists>r. process_line line = Inr (Some r) \<and> phenotypes r = [] \<and>
           mouse r = split_on [tab] (strip line) ! 13)"
    using unmatched_segments_dropped by (elim conjE)
  then have "\<exists>r. process_line line = Inr (Some r) \<and> phenotypes r = [] \<and>
           mouse r = split_on [tab] (strip line) ! 13"
    using 1 by (elim allE impE)
  then show ?thesis
    unfolding 2 unfolding line_def .
qed

text \<open>
  C10, as amended.  For every segment \<open>NAME, DIGITS (K)\<close>, alone or followed by a
  comma, a space and further text, where \<open>NAME\<close> holds no line break, \<open>DIGITS\<close> is a
  run of digits that is not six long, and \<open>, NNNNNN (n)\<close> with six digits occurs
  nowhere else in the segment: Grammar A fails, Grammar B matches, and the
  annotation has no mim number and a name that begins with \<open>NAME, DIGITS \<close>, the
  comma, the digits and the space included.  When the text after \<open>(K)\<close> holds no
  opening parenthesis, the name is exactly that and the mapping key is \<open>K\<close>.
\<close>

theorem wrong_digit_count_falls_to_B:
  assumes s: "s = name @ '', '' @ ds @ '' ('' @ [k] @ '')'' @ tail"
    and ds: "list_all isdigit ds" "length ds \<noteq> 6"
    and k: "isdigit k"
    and name: "newline \<notin> set name"
    and tail: "inheritance_tail tail = Some g"
    and others: "set (occurrences s) \<subseteq> {length name}"
  shows "grammar_A s = None \<and>
    (\<exists>n' k' g'. grammar_B s = Some (n', k', g') \<and> prefix (name @ '', '' @ ds @ '' '') n' \<and>
       match_phenotype s =
         Some \<lparr>phenotype_name = n', phenotype_mim_number = None,
               phenotype_mapping_key = k', inheritances = inheritance_list g'\<rparr>) \<and>
    (CHR ''('' \<notin> set tail \<longrightarrow> grammar_B s = Some (name @ '', '' @ ds @ '' '', [k], g))"
proof -
  define pre where "pre = name @ '', '' @ ds @ '' ''"
  have s': "s = pre @ CHR ''('' # k # CHR '')'' # tail"
    by (simp add: s pre_def)
  have take_pre: "take (length pre) s = pre"
    and drop_pre: "drop (length pre) s = CHR ''('' # k # CHR '')'' # tail"
    by (simp_all add: s')
  have "newline \<notin> set pre"
    using name ds(1) by (auto simp: pre_def list_all_iff newline_def dest: isdigit_simps(2))
  then have "\<forall>x\<in>set (take (length pre) s). dot x"
    by (auto simp: take_pre dot_def)
  then have le: "length pre \<le> length (takeWhile dot s)"
    by (rule takeWhile_covers) (simp add: s')
  have here: "after_name_B (drop (length pre) s) = Some ([k], g)"
    using k tail by (simp add: drop_pre after_name_B_here)
  have A: "grammar_A s = None"
  proof -
    have "after_name_A (drop i s) = None" for i
    proof (cases "i = length name")
      case True
      then have "drop i s = '', '' @ ds @ '' ('' @ (k # CHR '')'' # tail)"
        by (simp add: s)
      then have "mim_and_key (drop i s) = None"
        using not_six_digits[OF ds] by simp
      then show ?thesis
        by (rule after_name_A_None)
    next
      case False
      then have "i \<notin> set (occurrences s)"
        using others by auto
      then have "mim_and_key (drop i s) = None"
        using occurrences_iff[of i s] by blast
      then show ?thesis
        by (rule after_name_A_None)
    qed
    then show ?thesis
      by (simp add: grammar_A_def greedy_name_def backtrack_None_iff)
  qed
  have "after_name_B (drop (length pre) s) \<noteq> None"
    using here by simp
  with le obtain j r where j: "length pre \<le> j"
    and B: "backtrack after_name_B s (length (takeWhile dot s)) = Some (take j s, r)"
    using backtrack_at_least[of "length pre" "length (takeWhile dot s)" after_name_B s]
    by blast
  obtain k' g' where r: "r = (k', g')"
    by (cases r)
  have "prefix pre (take j s)"
    using take_prefix_mono[OF j, of s] by (simp add: take_pre)
  then have "grammar_B s = Some (take j s, k', g') \<and> prefix pre (take j s) \<and>
       match_phenotype s =
         Some \<lparr>phenotype_name = take j s, phenotype_mim_number = None,
               phenotype_mapping_key = k', inheritances = inheritance_list g'\<rparr>"
    using A B r by (simp add: grammar_B_def greedy_name_def match_phenotype_def)
  then have B': "\<exists>n' k' g'. grammar_B s = Some (n', k', g') \<and>
       prefix (name @ '', '' @ ds @ '' '') n' \<and>
       match_phenotype s =
         Some \<lparr>phenotype_name = n', phenotype_mim_number = None,
               phenotype_mapping_key = k', inheritances = inheritance_list g'\<rparr>"
    unfolding pre_def by blast
  have "grammar_B s = Some (name @ '', '' @ ds @ '' '', [k], g)" if "CHR ''('' \<notin> set tail"
  proof -
    have "after_name_B (drop i s) = None" if "length pre < i" for i
    proof -
      have "CHR ''('' \<notin> set (k # CHR '')'' # tail)"
        using \<open>CHR ''('' \<notin> set tail\<close> k by (auto dest: isdigit_simps(3))
      moreover have "drop i s = drop (i - Suc (length pre)) (k # CHR '')'' # tail)"
      proof -
        from that obtain d where "i = Suc (length pre + d)"
          using less_imp_Suc_add by blast
        then show ?thesis
          by (simp add: s')
      qed
      ultimately show ?thesis
        using after_name_B_no_paren by simp
    qed
    then have "backtrack after_name_B s (length (takeWhile dot s)) =
        Some (take (length pre) s, [k], g)"
      using le here by (intro backtrack_rightmost) auto
    then have "grammar_B s = Some (pre, [k], g)"
      by (simp add: grammar_B_def greedy_name_def take_pre)
    then show ?thesis
      by (simp add: pre_def)
  qed
  with A B' show ?thesis
    by blast
qed

theorem wrong_digit_count_falls_to_B_witness:
  "grammar_A ''Some disease, 12345 (1)'' = None \<and>
   grammar_B ''Some disease, 12345 (1)'' = Some (''Some disease, 12345 '', ''1'', None) \<and>
   match_phenotype ''Some disease, 12345 (1)'' =
     Some \<lparr>phenotype_name = ''Some disease, 12345 '', phenotype_mim_number = None,
           phenotype_mapping_key = ''1'', inheritances = []\<rparr>"
proof -
  define s where "s = ''Some disease, 12345 (1)''"
  have 1: "s = ''Some disease'' @ '', '' @ ''12345'' @ '' ('' @ [CHR ''1''] @ '')'' @ []"
    by (simp add: s_def)
  have 2: "list_all isdigit ''12345''"
    by code_simp
  have 3: "length ''12345'' \<noteq> 6"
    by simp
  have 4: "isdigit CHR ''1''"
    by code_simp
  have 5: "newline \<notin> set ''Some disease''"
    by code_simp
  have 6: "inheritance_tail [] = Some None"
    by code_simp
  have 7: "set (occurrences s) \<subseteq> {length ''Some disease''}"
    unfolding s_def by code_simp
  have 8: "CHR ''('' \<notin> set []"
    by simp
  have 9: "match_phenotype s =
     Some \<lparr>phenotype_name = ''Some disease, 12345 '', phenotype_mim_number = None,
           phenotype_mapping_key = ''1'', inheritances = []\<rparr>"
    unfolding s_def by code_simp
  from wrong_digit_count_falls_to_B[OF 1 2 3 4 5 6 7] 8 9
  have "grammar_A s = None \<and>
   grammar_B s = Some (''Some disease, 12345 '', ''1'', None) \<and>
   match_phenotype s =
     Some \<lparr>phenotype_name = ''Some disease, 12345 '', phenotype_mim_number = None,
           phenotype_mapping_key = ''1'', inheritances = []\<rparr>"
    by simp
  then show ?thesis
    unfolding s_def .
qed

text \<open>
  C10 as stated fails: this segment has the shape \<open>NAME, DIGITS (K)\<close> with the name
  \<open>X, 123456 (1), Y\<close> and the five digits \<open>12345\<close>, yet Grammar A matches it, at the
  six digits inside the name, and the annotation has a mim number.
\<close>

theorem wrong_digit_count_counterexample:
  "''X, 123456 (1), Y, 12345 (2)'' =
     ''X, 123456 (1), Y'' @ '', '' @ ''12345'' @ '' ('' @ ''2'' @ '')'' \<and>
   grammar_A ''X, 123456 (1), Y, 12345 (2)'' =
     Some (''X'', ''123456'', ''1'', Some ''Y, 12345 (2)'') \<and>
   match_phenotype ''X, 123456 (1), Y, 12345 (2)'' =
     Some \<lparr>phenotype_name = ''X'', phenotype_mim_number = Some ''123456'',
           phenotype_mapping_key = ''1'', inheritances = [''Y'', ''12345 (2)'']\<rparr>"
  by code_simp

end
